theory Spec2Isabelle
  imports Main
begin

section \<open>The task API of \<^verbatim>\<open>backend/main.py\<close>\<close>

text \<open>
  The module defines one table (\<^verbatim>\<open>tasks\<close>), three request/response schemas and four
  request handlers. The handlers are embedded as functions on an explicit store state.
  What the handlers call but the module does not define is modelled as follows.
  \<^item> The relational store is a list of rows plus the sequence that generates primary
    keys. A statement of a session either succeeds or raises; which statements raise
    in a given request is an input of the handler (\<open>faults\<close>).
  \<^item> \<^verbatim>\<open>HTTPException\<close> is a subclass of Python's \<^verbatim>\<open>Exception\<close>, so the clause
    \<^verbatim>\<open>except Exception\<close> catches it like any exception of the store.
  \<^item> Strings are lists of characters with code points below 256.
  \<^item> The log line written by each \<^verbatim>\<open>except\<close> clause is not visible to the caller and is
    left out. Request validation and response serialisation happen in the framework,
    outside the handlers, and are left out as well; payloads are well typed.
  The helpers \<^verbatim>\<open>hash_password\<close> and \<^verbatim>\<open>verify_password\<close> are called by no handler.
\<close>

subsection \<open>Exceptions\<close>

datatype exn =
    HTTPException (status_code: int) (detail: string)
  | SQLAlchemyError string

subsection \<open>The table definition\<close>

datatype sqltype = Integer | String | Boolean

datatype sqlvalue = IntV int | StrV string | BoolV bool | NULL

text \<open>
  The arguments of a \<^verbatim>\<open>Column(...)\<close> call. \<open>nullable\<close> and \<open>default_value\<close> are \<open>None\<close>
  when the call does not pass them. \<open>default_value\<close> is the argument \<^verbatim>\<open>default=\<close>: a value
  that the object-relational mapper puts into an INSERT for an attribute that the object
  leaves unset. It is not a DEFAULT of the table, and \<^verbatim>\<open>create_task\<close> sets every attribute
  of the object it adds, so no operation below reads it.
\<close>

record Column =
  name :: string
  coltype :: sqltype
  primary_key :: bool
  index :: bool
  nullable :: "bool option"
  default_value :: "sqlvalue option"

definition Task_id :: Column where
  "Task_id = \<lparr>name = ''id'', coltype = Integer, primary_key = True, index = True,
     nullable = None, default_value = None\<rparr>"

definition Task_title :: Column where
  "Task_title = \<lparr>name = ''title'', coltype = String, primary_key = False, index = True,
     nullable = None, default_value = None\<rparr>"

definition Task_description :: Column where
  "Task_description = \<lparr>name = ''description'', coltype = String, primary_key = False,
     index = False, nullable = None, default_value = None\<rparr>"

definition Task_completed :: Column where
  "Task_completed = \<lparr>name = ''completed'', coltype = Boolean, primary_key = False,
     index = False, nullable = None, default_value = Some (BoolV False)\<rparr>"

definition Task_color :: Column where
  "Task_color = \<lparr>name = ''color'', coltype = String, primary_key = False, index = False,
     nullable = None, default_value = None\<rparr>"

definition Task_columns :: "Column list" where
  "Task_columns = [Task_id, Task_title, Task_description, Task_completed, Task_color]"

text \<open>
  A column whose definition does not say \<^verbatim>\<open>nullable=...\<close> accepts NULL unless it is part
  of the primary key.
\<close>

definition is_nullable :: "Column \<Rightarrow> bool" where
  "is_nullable c = (case nullable c of Some b \<Rightarrow> b | None \<Rightarrow> \<not> primary_key c)"

subsection \<open>Rows and schemas\<close>

text \<open>A row of \<^verbatim>\<open>tasks\<close>. \<open>None\<close> in a column is the SQL NULL.\<close>

record Task =
  id' :: int
  title :: "string option"
  description :: "string option"
  completed :: "bool option"
  color :: "string option"

record TaskCreate =
  title :: string
  description :: string
  completed :: bool
  color :: string

text \<open>
  Building a \<^verbatim>\<open>TaskCreate\<close> from a request body: \<^verbatim>\<open>completed\<close> and \<^verbatim>\<open>color\<close> may be
  omitted (\<open>None\<close>) and then take the defaults of the class.
\<close>

definition new_TaskCreate :: "string \<Rightarrow> string \<Rightarrow> bool option \<Rightarrow> string option \<Rightarrow> TaskCreate" where
  "new_TaskCreate t d c col =
     \<lparr>TaskCreate.title = t, TaskCreate.description = d,
      TaskCreate.completed = (case c of None \<Rightarrow> False | Some b \<Rightarrow> b),
      TaskCreate.color = (case col of None \<Rightarrow> ''#ffffff'' | Some s \<Rightarrow> s)\<rparr>"

text \<open>
  A \<^verbatim>\<open>TaskUpdate\<close>. Every field is \<^verbatim>\<open>Optional\<close>, and the model remembers which fields
  the request set: \<open>None\<close> is a field that is not in the payload, \<open>Some None\<close> one that
  the payload sets to \<^verbatim>\<open>null\<close>.
\<close>

record TaskUpdate =
  title :: "string option option"
  description :: "string option option"
  completed :: "bool option option"
  color :: "string option option"

text \<open>One item of \<^verbatim>\<open>task.dict(exclude_unset=True)\<close>: an attribute name with its value.\<close>

datatype item =
    Title "string option"
  | Description "string option"
  | Completed "bool option"
  | Color "string option"

definition dict_exclude_unset :: "TaskUpdate \<Rightarrow> item list" where
  "dict_exclude_unset task =
     (case TaskUpdate.title task of None \<Rightarrow> [] | Some v \<Rightarrow> [Title v]) @
     (case TaskUpdate.description task of None \<Rightarrow> [] | Some v \<Rightarrow> [Description v]) @
     (case TaskUpdate.completed task of None \<Rightarrow> [] | Some v \<Rightarrow> [Completed v]) @
     (case TaskUpdate.color task of None \<Rightarrow> [] | Some v \<Rightarrow> [Color v])"

fun setattr :: "Task \<Rightarrow> item \<Rightarrow> Task" where
  "setattr t (Title v) = t\<lparr>Task.title := v\<rparr>"
| "setattr t (Description v) = t\<lparr>Task.description := v\<rparr>"
| "setattr t (Completed v) = t\<lparr>Task.completed := v\<rparr>"
| "setattr t (Color v) = t\<lparr>Task.color := v\<rparr>"

text \<open>
  \<^verbatim>\<open>Task(title=..., description=..., color=..., completed=...)\<close>: the new object has no
  \<^verbatim>\<open>id\<close> until the store inserts it, so it is a row that waits for its key.
\<close>

definition new_Task :: "string \<Rightarrow> string \<Rightarrow> string \<Rightarrow> bool \<Rightarrow> int \<Rightarrow> Task" where
  "new_Task t d col c pk =
     \<lparr>id' = pk, Task.title = Some t, Task.description = Some d, Task.completed = Some c,
      Task.color = Some col\<rparr>"

definition getattr :: "Task \<Rightarrow> string \<Rightarrow> sqlvalue" where
  "getattr t c =
     (if c = ''id'' then IntV (id' t)
      else if c = ''title'' then (case Task.title t of None \<Rightarrow> NULL | Some s \<Rightarrow> StrV s)
      else if c = ''description'' then (case Task.description t of None \<Rightarrow> NULL | Some s \<Rightarrow> StrV s)
      else if c = ''completed'' then (case Task.completed t of None \<Rightarrow> NULL | Some b \<Rightarrow> BoolV b)
      else if c = ''color'' then (case Task.color t of None \<Rightarrow> NULL | Some s \<Rightarrow> StrV s)
      else NULL)"

subsection \<open>The store\<close>

record db_state =
  rows :: "Task list"
  next_id :: int

text \<open>The store after \<^verbatim>\<open>create_all\<close> on an empty database.\<close>

definition init_db :: db_state where
  "init_db = \<lparr>rows = [], next_id = 1\<rparr>"

definition ids :: "db_state \<Rightarrow> int list" where
  "ids db = map id' (rows db)"

datatype db_op = Add | Query | Delete | Commit | Refresh

type_synonym faults = "db_op \<Rightarrow> exn option"

definition no_faults :: faults where
  "no_faults = (\<lambda>_. None)"

text \<open>A row written to the table has a value in every column that is not nullable.\<close>

definition violates_not_null :: "Task \<Rightarrow> bool" where
  "violates_not_null t =
     list_ex (\<lambda>c. (if is_nullable c then False else getattr t (name c) = NULL)) Task_columns"

definition add :: "faults \<Rightarrow> exn + unit" where
  "add F = (case F Add of Some e \<Rightarrow> Inl e | None \<Rightarrow> Inr ())"

definition delete :: "faults \<Rightarrow> exn + unit" where
  "delete F = (case F Delete of Some e \<Rightarrow> Inl e | None \<Rightarrow> Inr ())"

text \<open>\<^verbatim>\<open>db.query(Task).all()\<close>\<close>

definition query_all :: "faults \<Rightarrow> db_state \<Rightarrow> exn + Task list" where
  "query_all F db = (case F Query of Some e \<Rightarrow> Inl e | None \<Rightarrow> Inr (rows db))"

text \<open>\<^verbatim>\<open>db.query(Task).filter(Task.completed == b).all()\<close>: a NULL equals neither value.\<close>

definition query_filter_completed :: "faults \<Rightarrow> bool \<Rightarrow> db_state \<Rightarrow> exn + Task list" where
  "query_filter_completed F b db =
     (case F Query of Some e \<Rightarrow> Inl e
      | None \<Rightarrow> Inr (filter (\<lambda>t. Task.completed t = Some b) (rows db)))"

text \<open>\<^verbatim>\<open>db.query(Task).filter(Task.id == task_id).first()\<close>\<close>

definition query_first_by_id :: "faults \<Rightarrow> int \<Rightarrow> db_state \<Rightarrow> exn + Task option" where
  "query_first_by_id F task_id db =
     (case F Query of Some e \<Rightarrow> Inl e
      | None \<Rightarrow> Inr (find (\<lambda>t. id' t = task_id) (rows db)))"

text \<open>
  \<^verbatim>\<open>db.commit()\<close> with one added object: the INSERT takes the next value of the
  sequence as key; the sequence keeps that step also when the INSERT is rejected.
\<close>

definition commit_insert :: "faults \<Rightarrow> (int \<Rightarrow> Task) \<Rightarrow> db_state \<Rightarrow> (exn + int) \<times> db_state" where
  "commit_insert F obj db =
     (case F Commit of Some e \<Rightarrow> (Inl e, db)
      | None \<Rightarrow>
         (let pk = next_id db; row = obj pk in
          if violates_not_null row \<or> pk \<in> set (ids db)
          then (Inl (SQLAlchemyError ''IntegrityError''), db\<lparr>next_id := pk + 1\<rparr>)
          else (Inr pk, db\<lparr>rows := rows db @ [row], next_id := pk + 1\<rparr>)))"

text \<open>\<^verbatim>\<open>db.commit()\<close> with one modified object: the UPDATE of the row with its key.\<close>

definition commit_update :: "faults \<Rightarrow> Task \<Rightarrow> db_state \<Rightarrow> (exn + unit) \<times> db_state" where
  "commit_update F obj db =
     (case F Commit of Some e \<Rightarrow> (Inl e, db)
      | None \<Rightarrow>
         if violates_not_null obj then (Inl (SQLAlchemyError ''IntegrityError''), db)
         else (Inr (), db\<lparr>rows := map (\<lambda>t. if id' t = id' obj then obj else t) (rows db)\<rparr>))"

text \<open>\<^verbatim>\<open>db.commit()\<close> with one deleted object: the DELETE of the row with its key.\<close>

definition commit_delete :: "faults \<Rightarrow> Task \<Rightarrow> db_state \<Rightarrow> (exn + unit) \<times> db_state" where
  "commit_delete F obj db =
     (case F Commit of Some e \<Rightarrow> (Inl e, db)
      | None \<Rightarrow> (Inr (), db\<lparr>rows := filter (\<lambda>t. id' t \<noteq> id' obj) (rows db)\<rparr>))"

text \<open>\<^verbatim>\<open>db.refresh(obj)\<close>: reads the row with the object's key again.\<close>

definition refresh :: "faults \<Rightarrow> int \<Rightarrow> db_state \<Rightarrow> exn + Task" where
  "refresh F pk db =
     (case F Refresh of Some e \<Rightarrow> Inl e
      | None \<Rightarrow>
         (case find (\<lambda>t. id' t = pk) (rows db) of
            None \<Rightarrow> Inl (SQLAlchemyError ''InvalidRequestError'')
          | Some t \<Rightarrow> Inr t))"

subsection \<open>Strings\<close>

text \<open>\<^verbatim>\<open>str.lower\<close> on code points below 256: A-Z and the capital letters of Latin-1.\<close>

definition lower_char :: "char \<Rightarrow> char" where
  "lower_char c =
     (let n = (of_char c :: nat) in
      if (65 \<le> n \<and> n \<le> 90) \<or> (192 \<le> n \<and> n \<le> 214) \<or> (216 \<le> n \<and> n \<le> 222)
      then char_of (n + 32) else c)"

definition lower :: "string \<Rightarrow> string" where
  "lower s = map lower_char s"

text \<open>
  Equality with \<^verbatim>\<open>"completed"\<close> up to case, stated without \<open>lower\<close>: the string has
  nine characters, each the small or the capital letter of that position.
\<close>

definition is_completed_ignoring_case :: "string \<Rightarrow> bool" where
  "is_completed_ignoring_case s =
     list_all2 (\<lambda>c (l, u). c = l \<or> c = u) s (zip ''completed'' ''COMPLETED'')"

subsection \<open>The handlers\<close>

definition internal_server_error :: exn where
  "internal_server_error = HTTPException 500 ''Internal server error''"

text \<open>The body of the \<^verbatim>\<open>try\<close> block of \<^verbatim>\<open>create_task\<close>.\<close>

definition create_task_try :: "faults \<Rightarrow> TaskCreate \<Rightarrow> db_state \<Rightarrow> (exn + Task) \<times> db_state" where
  "create_task_try F task db =
     (let db_task = new_Task (TaskCreate.title task) (TaskCreate.description task)
                      (TaskCreate.color task) (TaskCreate.completed task) in
      case add F of
        Inl e \<Rightarrow> (Inl e, db)
      | Inr _ \<Rightarrow>
         (case commit_insert F db_task db of
            (Inl e, db') \<Rightarrow> (Inl e, db')
          | (Inr pk, db') \<Rightarrow>
             (case refresh F pk db' of
                Inl e \<Rightarrow> (Inl e, db')
              | Inr t \<Rightarrow> (Inr t, db'))))"

definition create_task :: "faults \<Rightarrow> TaskCreate \<Rightarrow> db_state \<Rightarrow> (exn + Task) \<times> db_state" where
  "create_task F task db =
     (case create_task_try F task db of
        (Inl e, db') \<Rightarrow> (Inl internal_server_error, db')
      | (Inr t, db') \<Rightarrow> (Inr t, db'))"

text \<open>\<^verbatim>\<open>if status:\<close> holds for a string that is present and not empty.\<close>

definition get_tasks_try :: "faults \<Rightarrow> string option \<Rightarrow> db_state \<Rightarrow> exn + Task list" where
  "get_tasks_try F status db =
     (case status of
        None \<Rightarrow> query_all F db
      | Some s \<Rightarrow>
         if s \<noteq> [] then query_filter_completed F (lower s = ''completed'') db
         else query_all F db)"

definition get_tasks :: "faults \<Rightarrow> string option \<Rightarrow> db_state \<Rightarrow> exn + Task list" where
  "get_tasks F status db =
     (case get_tasks_try F status db of
        Inl e \<Rightarrow> Inl internal_server_error
      | Inr tasks \<Rightarrow> Inr tasks)"

definition update_task_try :: "faults \<Rightarrow> int \<Rightarrow> TaskUpdate \<Rightarrow> db_state \<Rightarrow> (exn + Task) \<times> db_state" where
  "update_task_try F task_id task db =
     (case query_first_by_id F task_id db of
        Inl e \<Rightarrow> (Inl e, db)
      | Inr None \<Rightarrow> (Inl (HTTPException 404 ''Task not found''), db)
      | Inr (Some db_task) \<Rightarrow>
         (let update_data = dict_exclude_unset task;
              db_task = foldl setattr db_task update_data in
          case commit_update F db_task db of
            (Inl e, db') \<Rightarrow> (Inl e, db')
          | (Inr _, db') \<Rightarrow>
             (case refresh F (id' db_task) db' of
                Inl e \<Rightarrow> (Inl e, db')
              | Inr t \<Rightarrow> (Inr t, db'))))"

definition update_task :: "faults \<Rightarrow> int \<Rightarrow> TaskUpdate \<Rightarrow> db_state \<Rightarrow> (exn + Task) \<times> db_state" where
  "update_task F task_id task db =
     (case update_task_try F task_id task db of
        (Inl e, db') \<Rightarrow> (Inl internal_server_error, db')
      | (Inr t, db') \<Rightarrow> (Inr t, db'))"

type_synonym message = "(string \<times> string) list"

definition delete_task_try :: "faults \<Rightarrow> int \<Rightarrow> db_state \<Rightarrow> (exn + message) \<times> db_state" where
  "delete_task_try F task_id db =
     (case query_first_by_id F task_id db of
        Inl e \<Rightarrow> (Inl e, db)
      | Inr None \<Rightarrow> (Inl (HTTPException 404 ''Task not found''), db)
      | Inr (Some db_task) \<Rightarrow>
         (case delete F of
            Inl e \<Rightarrow> (Inl e, db)
          | Inr _ \<Rightarrow>
             (case commit_delete F db_task db of
                (Inl e, db') \<Rightarrow> (Inl e, db')
              | (Inr _, db') \<Rightarrow> (Inr [(''message'', ''Task deleted successfully'')], db'))))"

definition delete_task :: "faults \<Rightarrow> int \<Rightarrow> db_state \<Rightarrow> (exn + message) \<times> db_state" where
  "delete_task F task_id db =
     (case delete_task_try F task_id db of
        (Inl e, db') \<Rightarrow> (Inl internal_server_error, db')
      | (Inr m, db') \<Rightarrow> (Inr m, db'))"

subsection \<open>Sequences of requests\<close>

datatype request =
    POST_tasks TaskCreate
  | GET_tasks "string option"
  | PUT_tasks int TaskUpdate
  | DELETE_tasks int

fun handle :: "faults \<Rightarrow> request \<Rightarrow> db_state \<Rightarrow> db_state" where
  "handle F (POST_tasks task) db = snd (create_task F task db)"
| "handle F (GET_tasks status) db = db"
| "handle F (PUT_tasks task_id task) db = snd (update_task F task_id task db)"
| "handle F (DELETE_tasks task_id) db = snd (delete_task F task_id db)"

text \<open>The store after a sequence of requests, each with the faults of its session.\<close>

fun run :: "(faults \<times> request) list \<Rightarrow> db_state \<Rightarrow> db_state" where
  "run [] db = db"
| "run ((F, r) # tr) db = run tr (handle F r db)"

text \<open>The stores the sequence passes through, the first and the last included.\<close>

fun states :: "(faults \<times> request) list \<Rightarrow> db_state \<Rightarrow> db_state list" where
  "states [] db = [db]"
| "states ((F, r) # tr) db = db # states tr (handle F r db)"

text \<open>The sequence is ahead of every key in the table.\<close>

definition seq_ahead :: "db_state \<Rightarrow> bool" where
  "seq_ahead db = list_all (\<lambda>i. i < next_id db) (ids db)"

subsection \<open>An example store\<close>

text \<open>
  Three tasks are created; the third is then updated with the payload
  \<^verbatim>\<open>{"completed": null}\<close>.
\<close>

definition example_trace :: "(faults \<times> request) list" where
  "example_trace =
     [(no_faults, POST_tasks (new_TaskCreate ''A'' ''d'' None None)),
      (no_faults, POST_tasks (new_TaskCreate ''B'' ''e'' (Some True) (Some ''#ff0000''))),
      (no_faults, POST_tasks (new_TaskCreate ''C'' ''f'' None None)),
      (no_faults, PUT_tasks 3 \<lparr>TaskUpdate.title = None, TaskUpdate.description = None,
                               TaskUpdate.completed = Some None, TaskUpdate.color = None\<rparr>)]"

definition example_db :: db_state where
  "example_db = run example_trace init_db"

text \<open>A session whose \<^verbatim>\<open>commit\<close> fails, and one whose queries fail.\<close>

definition failing_commit :: faults where
  "failing_commit = (\<lambda>op. if op = Commit then Some (SQLAlchemyError ''connection lost'') else None)"

definition failing_query :: faults where
  "failing_query = (\<lambda>op. if op = Query then Some (SQLAlchemyError ''connection lost'') else None)"

text \<open>The example requests, followed by the deletion of the third task.\<close>

definition example_trace_delete :: "(faults \<times> request) list" where
  "example_trace_delete = example_trace @ [(no_faults, DELETE_tasks 3)]"

section \<open>Properties\<close>

subsection \<open>The store operations\<close>

lemma violates_not_null_never: "\<not> violates_not_null t"
  by (simp add: violates_not_null_def Task_columns_def is_nullable_def getattr_def
      Task_id_def Task_title_def Task_description_def Task_completed_def Task_color_def)

lemma find_id_Some: "find (\<lambda>t. id' t = k) xs = Some t \<Longrightarrow> id' t = k \<and> t \<in> set xs"
  by (induction xs) (auto split: if_splits)

lemma find_id_None: "(find (\<lambda>t. id' t = k) xs = None) = (k \<notin> set (map id' xs))"
  by (induction xs) auto

lemma find_id_append_new:
  "k \<notin> set (map id' xs) \<Longrightarrow> id' r = k \<Longrightarrow> find (\<lambda>t. id' t = k) (xs @ [r]) = Some r"
  by (induction xs) auto

lemma id_foldl_setattr: "id' (foldl setattr t its) = id' t"
proof (induction its arbitrary: t)
  case Nil
  show ?case by simp
next
  case (Cons it its)
  have "id' (setattr t it) = id' t" by (cases it) simp_all
  with Cons show ?case by simp
qed

lemma map_id_replace:
  "id' obj = k \<Longrightarrow> map id' (map (\<lambda>t. if id' t = k then obj else t) xs) = map id' xs"
  by (induction xs) auto

lemma find_id_replace:
  "find (\<lambda>t. id' t = k) xs = Some r \<Longrightarrow> id' obj = k \<Longrightarrow>
   find (\<lambda>t. id' t = k) (map (\<lambda>t. if id' t = k then obj else t) xs) = Some obj"
  by (induction xs) (auto split: if_splits)

lemma replace_same:
  "distinct (map id' xs) \<Longrightarrow> find (\<lambda>t. id' t = k) xs = Some r \<Longrightarrow>
   map (\<lambda>t. if id' t = k then r else t) xs = xs"
proof (induction xs)
  case Nil
  then show ?case by simp
next
  case (Cons x xs)
  show ?case
  proof (cases "id' x = k")
    case True
    with Cons.prems have r: "r = x" and notin: "k \<notin> set (map id' xs)" by auto
    from notin have "map (\<lambda>t. if id' t = k then r else t) xs = xs"
      by (induction xs) auto
    with True r show ?thesis by simp
  next
    case False
    with Cons show ?thesis by simp
  qed
qed

lemma create_task_ok:
  assumes "F Add = None" "F Commit = None" "F Refresh = None" "next_id db \<notin> set (ids db)"
  shows "create_task F task db =
    (Inr (new_Task (TaskCreate.title task) (TaskCreate.description task)
            (TaskCreate.color task) (TaskCreate.completed task) (next_id db)),
     db\<lparr>rows := rows db @ [new_Task (TaskCreate.title task) (TaskCreate.description task)
            (TaskCreate.color task) (TaskCreate.completed task) (next_id db)],
        next_id := next_id db + 1\<rparr>)"
proof -
  let ?r = "new_Task (TaskCreate.title task) (TaskCreate.description task)
            (TaskCreate.color task) (TaskCreate.completed task) (next_id db)"
  have "id' ?r = next_id db" by (simp add: new_Task_def)
  with assms(4) have "find (\<lambda>t. id' t = next_id db) (rows db @ [?r]) = Some ?r"
    by (simp add: find_id_append_new ids_def)
  with assms show ?thesis
    by (simp add: create_task_def create_task_try_def add_def commit_insert_def refresh_def
        violates_not_null_never Let_def)
qed

lemma snd_create_task_cases:
  "snd (create_task F task db) = db \<or>
   snd (create_task F task db) = db\<lparr>next_id := next_id db + 1\<rparr> \<or>
   (next_id db \<notin> set (ids db) \<and>
    snd (create_task F task db) =
      db\<lparr>rows := rows db @ [new_Task (TaskCreate.title task) (TaskCreate.description task)
            (TaskCreate.color task) (TaskCreate.completed task) (next_id db)],
         next_id := next_id db + 1\<rparr>)"
  by (simp add: create_task_def create_task_try_def add_def commit_insert_def refresh_def
        violates_not_null_never Let_def split: option.splits sum.splits prod.splits)

lemma update_task_ok:
  assumes "F Query = None" "F Commit = None" "F Refresh = None"
      and "find (\<lambda>t. id' t = i) (rows db) = Some t"
  shows "update_task F i u db =
    (Inr (foldl setattr t (dict_exclude_unset u)),
     db\<lparr>rows := map (\<lambda>r. if id' r = i then foldl setattr t (dict_exclude_unset u) else r)
                    (rows db)\<rparr>)"
proof -
  let ?obj = "foldl setattr t (dict_exclude_unset u)"
  have i: "id' ?obj = i" using find_id_Some [OF assms(4)] by (simp add: id_foldl_setattr)
  have "find (\<lambda>t. id' t = i) (map (\<lambda>r. if id' r = i then ?obj else r) (rows db)) = Some ?obj"
    using assms(4) i by (rule find_id_replace)
  with assms i show ?thesis
    by (simp add: update_task_def update_task_try_def query_first_by_id_def commit_update_def
        refresh_def violates_not_null_never Let_def)
qed

lemma snd_update_task:
  "snd (update_task F i u db) =
     (case F Query of Some e \<Rightarrow> db
      | None \<Rightarrow>
         (case find (\<lambda>t. id' t = i) (rows db) of None \<Rightarrow> db
          | Some t \<Rightarrow>
             (case F Commit of Some e \<Rightarrow> db
              | None \<Rightarrow>
                 db\<lparr>rows := map (\<lambda>r. if id' r = i then foldl setattr t (dict_exclude_unset u) else r)
                                (rows db)\<rparr>)))"
proof (cases "F Query")
  case (Some e)
  then show ?thesis
    by (simp add: update_task_def update_task_try_def query_first_by_id_def)
next
  case None
  note q = this
  show ?thesis
  proof (cases "find (\<lambda>t. id' t = i) (rows db)")
    case None
    with q show ?thesis
      by (simp add: update_task_def update_task_try_def query_first_by_id_def)
  next
    case (Some t)
    note f = this
    have i: "id' (foldl setattr t (dict_exclude_unset u)) = i"
      using find_id_Some [OF f] by (simp add: id_foldl_setattr)
    show ?thesis
    proof (cases "F Commit")
      case (Some e)
      with q f show ?thesis
        by (simp add: update_task_def update_task_try_def query_first_by_id_def
            commit_update_def Let_def)
    next
      case None
      with q f i show ?thesis
        by (simp add: update_task_def update_task_try_def query_first_by_id_def
            commit_update_def refresh_def violates_not_null_never Let_def
            split: option.split sum.split)
    qed
  qed
qed

lemma snd_update_task_cases:
  "snd (update_task F i u db) = db \<or>
   (\<exists>obj. id' obj = i \<and>
      snd (update_task F i u db) =
        db\<lparr>rows := map (\<lambda>t. if id' t = i then obj else t) (rows db)\<rparr>)"
proof (cases "F Query = None \<and> F Commit = None \<and> find (\<lambda>t. id' t = i) (rows db) \<noteq> None")
  case True
  then obtain t where t: "find (\<lambda>t. id' t = i) (rows db) = Some t" by auto
  have "id' (foldl setattr t (dict_exclude_unset u)) = i"
    using find_id_Some [OF t] by (simp add: id_foldl_setattr)
  moreover from True t have "snd (update_task F i u db) =
      db\<lparr>rows := map (\<lambda>r. if id' r = i then foldl setattr t (dict_exclude_unset u) else r) (rows db)\<rparr>"
    by (simp add: snd_update_task)
  ultimately show ?thesis by blast
next
  case False
  then have "snd (update_task F i u db) = db"
    by (auto simp: snd_update_task split: option.splits)
  then show ?thesis by simp
qed

lemma snd_delete_task:
  "snd (delete_task F i db) =
     (case F Query of Some e \<Rightarrow> db
      | None \<Rightarrow>
         (case find (\<lambda>t. id' t = i) (rows db) of None \<Rightarrow> db
          | Some t \<Rightarrow>
             (case F Delete of Some e \<Rightarrow> db
              | None \<Rightarrow>
                 (case F Commit of Some e \<Rightarrow> db
                  | None \<Rightarrow> db\<lparr>rows := filter (\<lambda>r. id' r \<noteq> i) (rows db)\<rparr>))))"
proof (cases "find (\<lambda>t. id' t = i) (rows db)")
  case None
  then show ?thesis
    by (simp add: delete_task_def delete_task_try_def query_first_by_id_def split: option.split)
next
  case (Some t)
  have "id' t = i" using find_id_Some [OF Some] by simp
  with Some show ?thesis
    by (simp add: delete_task_def delete_task_try_def query_first_by_id_def delete_def
        commit_delete_def split: option.split)
qed

lemmas store_defs = add_def delete_def query_all_def query_filter_completed_def
  query_first_by_id_def commit_insert_def commit_update_def commit_delete_def refresh_def

lemmas handler_defs = create_task_def create_task_try_def get_tasks_def get_tasks_try_def
  update_task_def update_task_try_def delete_task_def delete_task_try_def

lemma example_db_eq:
  "example_db =
     \<lparr>rows = [\<lparr>id' = 1, Task.title = Some ''A'', Task.description = Some ''d'',
                Task.completed = Some False, Task.color = Some ''#ffffff''\<rparr>,
              \<lparr>id' = 2, Task.title = Some ''B'', Task.description = Some ''e'',
                Task.completed = Some True, Task.color = Some ''#ff0000''\<rparr>,
              \<lparr>id' = 3, Task.title = Some ''C'', Task.description = Some ''f'',
                Task.completed = None, Task.color = Some ''#ffffff''\<rparr>],
      next_id = 4\<rparr>"
  by (simp add: example_db_def example_trace_def init_db_def no_faults_def handler_defs
      store_defs violates_not_null_never new_Task_def new_TaskCreate_def ids_def
      dict_exclude_unset_def Let_def)

subsection \<open>Comparing the status with \<^verbatim>\<open>"completed"\<close>\<close>

lemma lower_char_small_letter:
  fixes l u c :: char
  assumes l1: "97 \<le> (of_char l :: nat)" and l2: "(of_char l :: nat) \<le> 122"
      and u: "(of_char u :: nat) + 32 = of_char l"
  shows "(lower_char c = l) = (c = l \<or> c = u)"
proof -
  define n where "n = (of_char c :: nat)"
  have n: "n < 256" by (simp add: n_def)
  show ?thesis
  proof (cases "(65 \<le> n \<and> n \<le> 90) \<or> (192 \<le> n \<and> n \<le> 214) \<or> (216 \<le> n \<and> n \<le> 222)")
    case True
    then have lc: "lower_char c = char_of (n + 32)"
      by (simp add: lower_char_def n_def Let_def)
    from True have small: "n + 32 < 256" by arith
    have "(char_of (n + 32) = l) = ((n + 32) mod 256 = of_char l)"
      by (simp add: char_of_eq_iff take_bit_eq_mod)
    also have "\<dots> = (n + 32 = of_char l)" using small by simp
    also have "\<dots> = (n = of_char u)" using u by arith
    also have "\<dots> = (c = u)" by (simp add: n_def)
    finally have a: "(lower_char c = l) = (c = u)" using lc by simp
    have "c \<noteq> l"
    proof
      assume "c = l"
      then have "n = of_char l" by (simp add: n_def)
      with True l1 l2 show False by arith
    qed
    with a show ?thesis by simp
  next
    case False
    then have lc: "lower_char c = c"
      by (auto simp: lower_char_def n_def Let_def)
    have "c \<noteq> u"
    proof
      assume "c = u"
      then have "n + 32 = of_char l" using u by (simp add: n_def)
      with False l1 l2 show False by arith
    qed
    with lc show ?thesis by auto
  qed
qed

lemma lower_eq_small_letters:
  assumes "list_all2 (\<lambda>l u. 97 \<le> (of_char l :: nat) \<and> (of_char l :: nat) \<le> 122 \<and>
                      (of_char u :: nat) + 32 = of_char l) ls us"
  shows "(lower s = ls) = list_all2 (\<lambda>c (l, u). c = l \<or> c = u) s (zip ls us)"
  using assms
proof (induction ls us arbitrary: s rule: list_all2_induct)
  case Nil
  show ?case by (simp add: lower_def)
next
  case (Cons l ls u us)
  show ?case
  proof (cases s)
    case Nil
    then show ?thesis by (simp add: lower_def)
  next
    case (Cons c cs)
    from Cons.hyps(1) have "(lower_char c = l) = (c = l \<or> c = u)"
      by (intro lower_char_small_letter) simp_all
    moreover have "(lower cs = ls) = list_all2 (\<lambda>c (l, u). c = l \<or> c = u) cs (zip ls us)"
      by (rule Cons.IH)
    ultimately show ?thesis using Cons by (simp add: lower_def)
  qed
qed

lemma lower_eq_completed: "(lower s = ''completed'') = is_completed_ignoring_case s"
  unfolding is_completed_ignoring_case_def
  by (rule lower_eq_small_letters) simp

lemma get_tasks_None: "F Query = None \<Longrightarrow> get_tasks F None db = Inr (rows db)"
  by (simp add: get_tasks_def get_tasks_try_def query_all_def)

lemma get_tasks_filter:
  "F Query = None \<Longrightarrow> s \<noteq> [] \<Longrightarrow>
   get_tasks F (Some s) db =
     Inr (filter (\<lambda>t. Task.completed t = Some (lower s = ''completed'')) (rows db))"
  by (simp add: get_tasks_def get_tasks_try_def query_filter_completed_def)

lemma update_task_missing:
  assumes "task_id \<notin> set (ids db)"
  shows "update_task F task_id task db = (Inl internal_server_error, db)"
proof -
  from assms have "find (\<lambda>t. id' t = task_id) (rows db) = None"
    by (simp add: find_id_None ids_def)
  then show ?thesis
    by (simp add: update_task_def update_task_try_def query_first_by_id_def split: option.split)
qed

lemma delete_task_missing:
  assumes "task_id \<notin> set (ids db)"
  shows "delete_task F task_id db = (Inl internal_server_error, db)"
proof -
  from assms have "find (\<lambda>t. id' t = task_id) (rows db) = None"
    by (simp add: find_id_None ids_def)
  then show ?thesis
    by (simp add: delete_task_def delete_task_try_def query_first_by_id_def split: option.split)
qed

subsection \<open>What the handlers raise, and what an update writes\<close>

lemma create_task_Inl: "fst (create_task F task db) = Inl e \<Longrightarrow> e = internal_server_error"
  by (auto simp: create_task_def split: prod.splits sum.splits)

lemma get_tasks_Inl: "get_tasks F status db = Inl e \<Longrightarrow> e = internal_server_error"
  by (auto simp: get_tasks_def split: sum.splits)

lemma update_task_Inl: "fst (update_task F task_id task db) = Inl e \<Longrightarrow> e = internal_server_error"
  by (auto simp: update_task_def split: prod.splits sum.splits)

lemma delete_task_Inl: "fst (delete_task F task_id db) = Inl e \<Longrightarrow> e = internal_server_error"
  by (auto simp: delete_task_def split: prod.splits sum.splits)

lemma create_task_fault:
  assumes "F Add \<noteq> None \<or> F Commit \<noteq> None \<or> F Refresh \<noteq> None"
  shows "fst (create_task F task db) = Inl internal_server_error"
proof (cases "F Add")
  case (Some e)
  then show ?thesis by (simp add: create_task_def create_task_try_def add_def)
next
  case None
  note a = this
  show ?thesis
  proof (cases "F Commit")
    case (Some e)
    with a show ?thesis
      by (simp add: create_task_def create_task_try_def add_def commit_insert_def)
  next
    case None
    with a assms obtain e where "F Refresh = Some e" by auto
    with a None show ?thesis
      by (simp add: create_task_def create_task_try_def add_def commit_insert_def refresh_def
          Let_def)
  qed
qed

lemma get_tasks_fault:
  assumes "F Query \<noteq> None"
  shows "get_tasks F status db = Inl internal_server_error"
proof -
  from assms obtain e where "F Query = Some e" by auto
  then show ?thesis
    by (simp add: get_tasks_def get_tasks_try_def query_all_def query_filter_completed_def
        split: option.split)
qed

lemma update_task_fault:
  assumes "F Query \<noteq> None \<or> F Commit \<noteq> None \<or> F Refresh \<noteq> None"
  shows "fst (update_task F task_id task db) = Inl internal_server_error"
proof (cases "F Query")
  case (Some e)
  then show ?thesis by (simp add: update_task_def update_task_try_def query_first_by_id_def)
next
  case None
  note q = this
  show ?thesis
  proof (cases "find (\<lambda>t. id' t = task_id) (rows db)")
    case None
    with q show ?thesis
      by (simp add: update_task_def update_task_try_def query_first_by_id_def)
  next
    case (Some t)
    note f = this
    show ?thesis
    proof (cases "F Commit")
      case (Some e)
      with q f show ?thesis
        by (simp add: update_task_def update_task_try_def query_first_by_id_def
            commit_update_def Let_def)
    next
      case None
      with q assms obtain e where "F Refresh = Some e" by auto
      with q f None show ?thesis
        by (simp add: update_task_def update_task_try_def query_first_by_id_def
            commit_update_def refresh_def violates_not_null_never Let_def)
    qed
  qed
qed

lemma delete_task_fault:
  assumes "F Query \<noteq> None \<or> F Delete \<noteq> None \<or> F Commit \<noteq> None"
  shows "fst (delete_task F task_id db) = Inl internal_server_error"
proof (cases "F Query")
  case (Some e)
  then show ?thesis by (simp add: delete_task_def delete_task_try_def query_first_by_id_def)
next
  case None
  note q = this
  show ?thesis
  proof (cases "find (\<lambda>t. id' t = task_id) (rows db)")
    case None
    with q show ?thesis
      by (simp add: delete_task_def delete_task_try_def query_first_by_id_def)
  next
    case (Some t)
    note f = this
    show ?thesis
    proof (cases "F Delete")
      case (Some e)
      with q f show ?thesis
        by (simp add: delete_task_def delete_task_try_def query_first_by_id_def delete_def)
    next
      case None
      with q assms obtain e where "F Commit = Some e" by auto
      with q f None show ?thesis
        by (simp add: delete_task_def delete_task_try_def query_first_by_id_def delete_def
            commit_delete_def)
    qed
  qed
qed

lemma foldl_setattr_fields:
  "Task.title (foldl setattr t (dict_exclude_unset u)) =
     (case TaskUpdate.title u of None \<Rightarrow> Task.title t | Some v \<Rightarrow> v)"
  "Task.description (foldl setattr t (dict_exclude_unset u)) =
     (case TaskUpdate.description u of None \<Rightarrow> Task.description t | Some v \<Rightarrow> v)"
  "Task.completed (foldl setattr t (dict_exclude_unset u)) =
     (case TaskUpdate.completed u of None \<Rightarrow> Task.completed t | Some v \<Rightarrow> v)"
  "Task.color (foldl setattr t (dict_exclude_unset u)) =
     (case TaskUpdate.color u of None \<Rightarrow> Task.color t | Some v \<Rightarrow> v)"
  by (simp_all add: dict_exclude_unset_def split: option.split)

lemma dict_exclude_unset_empty:
  "dict_exclude_unset \<lparr>TaskUpdate.title = None, TaskUpdate.description = None,
     TaskUpdate.completed = None, TaskUpdate.color = None\<rparr> = []"
  by (simp add: dict_exclude_unset_def)

subsection \<open>Keys along a sequence of requests\<close>

lemma ids_create_cases:
  "(ids (snd (create_task F task db)) = ids db \<and>
    (next_id (snd (create_task F task db)) = next_id db \<or>
     next_id (snd (create_task F task db)) = next_id db + 1)) \<or>
   (next_id db \<notin> set (ids db) \<and>
    ids (snd (create_task F task db)) = ids db @ [next_id db] \<and>
    next_id (snd (create_task F task db)) = next_id db + 1)"
  using snd_create_task_cases [of F task db]
  by (elim disjE conjE) (simp_all add: ids_def new_Task_def)

lemma ids_update: "ids (snd (update_task F i u db)) = ids db"
  using snd_update_task_cases [of F i u db]
  by (elim disjE exE conjE) (simp_all add: ids_def map_id_replace)

lemma next_id_update: "next_id (snd (update_task F i u db)) = next_id db"
  using snd_update_task_cases [of F i u db]
  by (elim disjE exE conjE) simp_all

lemma map_id_filter: "map id' (filter (\<lambda>r. id' r \<noteq> i) xs) = filter (\<lambda>k. k \<noteq> i) (map id' xs)"
  by (induction xs) auto

lemma ids_delete:
  "ids (snd (delete_task F i db)) = ids db \<or>
   ids (snd (delete_task F i db)) = filter (\<lambda>k. k \<noteq> i) (ids db)"
  by (simp add: snd_delete_task ids_def map_id_filter split: option.split)

lemma next_id_delete: "next_id (snd (delete_task F i db)) = next_id db"
  by (simp add: snd_delete_task split: option.split)

lemma ids_handle_subset: "set (ids (handle F r db)) \<subseteq> insert (next_id db) (set (ids db))"
proof (cases r)
  case (POST_tasks task)
  then show ?thesis using ids_create_cases [of F task db] by auto
next
  case (GET_tasks status)
  then show ?thesis by auto
next
  case (PUT_tasks i u)
  then show ?thesis by (auto simp: ids_update)
next
  case (DELETE_tasks i)
  then show ?thesis using ids_delete [of F i db] by auto
qed

lemma next_id_handle: "next_id db \<le> next_id (handle F r db)"
proof (cases r)
  case (POST_tasks task)
  then show ?thesis using ids_create_cases [of F task db] by auto
next
  case (GET_tasks status)
  then show ?thesis by simp
next
  case (PUT_tasks i u)
  then show ?thesis by (simp add: next_id_update)
next
  case (DELETE_tasks i)
  then show ?thesis by (simp add: next_id_delete)
qed

lemma seq_ahead_iff: "seq_ahead db = (\<forall>i \<in> set (ids db). i < next_id db)"
  by (simp add: seq_ahead_def list_all_iff)

lemma seq_ahead_handle:
  assumes "seq_ahead db"
  shows "seq_ahead (handle F r db)"
proof (cases r)
  case (POST_tasks task)
  then show ?thesis using assms ids_create_cases [of F task db]
    by (fastforce simp: seq_ahead_iff dest: order_less_imp_le)
next
  case (GET_tasks status)
  then show ?thesis using assms by simp
next
  case (PUT_tasks i u)
  then show ?thesis using assms by (simp add: seq_ahead_iff ids_update next_id_update)
next
  case (DELETE_tasks i)
  then show ?thesis using assms ids_delete [of F i db]
    by (auto simp: seq_ahead_iff next_id_delete)
qed

lemma distinct_handle:
  assumes "distinct (ids db)"
  shows "distinct (ids (handle F r db))"
proof (cases r)
  case (POST_tasks task)
  then show ?thesis using assms ids_create_cases [of F task db] by auto
next
  case (GET_tasks status)
  then show ?thesis using assms by simp
next
  case (PUT_tasks i u)
  then show ?thesis using assms by (simp add: ids_update)
next
  case (DELETE_tasks i)
  then show ?thesis using assms ids_delete [of F i db] by auto
qed

lemma seq_ahead_run: "seq_ahead db \<Longrightarrow> seq_ahead (run tr db)"
  by (induction tr db rule: run.induct) (simp_all add: seq_ahead_handle)

lemma distinct_run: "distinct (ids db) \<Longrightarrow> distinct (ids (run tr db))"
  by (induction tr db rule: run.induct) (simp_all add: distinct_handle)

lemma next_id_run: "next_id db \<le> next_id (run tr db)"
proof (induction tr db rule: run.induct)
  case (1 db)
  show ?case by simp
next
  case (2 F r tr db)
  have "next_id db \<le> next_id (handle F r db)" by (rule next_id_handle)
  with 2 show ?case by simp
qed

lemma states_below_next_id:
  "seq_ahead db \<Longrightarrow> s \<in> set (states tr db) \<Longrightarrow> i \<in> set (ids s) \<Longrightarrow> i < next_id (run tr db)"
proof (induction tr db rule: states.induct)
  case (1 db)
  then show ?case by (simp add: seq_ahead_iff)
next
  case (2 F r tr db)
  show ?case
  proof (cases "s = db")
    case True
    with 2 have "i < next_id db" by (simp add: seq_ahead_iff)
    also have "\<dots> \<le> next_id (handle F r db)" by (rule next_id_handle)
    also have "\<dots> \<le> next_id (run tr (handle F r db))" by (rule next_id_run)
    finally show ?thesis by simp
  next
    case False
    with 2 have "s \<in> set (states tr (handle F r db))" by simp
    moreover have "seq_ahead (handle F r db)" using 2 by (simp add: seq_ahead_handle)
    ultimately show ?thesis using 2 by simp
  qed
qed

lemma absent_run:
  "i \<notin> set (ids db) \<Longrightarrow> i < next_id db \<Longrightarrow> i \<notin> set (ids (run tr db))"
proof (induction tr db rule: run.induct)
  case (1 db)
  then show ?case by simp
next
  case (2 F r tr db)
  have "i \<notin> set (ids (handle F r db))"
    using 2 ids_handle_subset [of F r db] by auto
  moreover have "i < next_id (handle F r db)"
    using 2 next_id_handle [of db F r] by simp
  ultimately show ?case using 2 by simp
qed

lemma run_in_states: "run tr1 db \<in> set (states (tr1 @ tr2) db)"
proof (induction tr1 db rule: run.induct)
  case (1 db)
  show ?case by (cases tr2) auto
next
  case (2 F r tr db)
  then show ?case by simp
qed

lemma init_db_ok: "seq_ahead init_db" "distinct (ids init_db)"
  by (simp_all add: seq_ahead_def init_db_def ids_def)

lemma get_tasks_subset: "get_tasks F status db = Inr tasks \<Longrightarrow> set tasks \<subseteq> set (rows db)"
  by (auto simp: get_tasks_def get_tasks_try_def query_all_def query_filter_completed_def
      split: option.splits sum.splits if_splits)

lemma delete_task_ok:
  assumes "F Query = None" "F Delete = None" "F Commit = None"
      and "find (\<lambda>t. id' t = i) (rows db) = Some t"
  shows "delete_task F i db =
    (Inr [(''message'', ''Task deleted successfully'')],
     db\<lparr>rows := filter (\<lambda>r. id' r \<noteq> i) (rows db)\<rparr>)"
proof -
  have "id' t = i" using find_id_Some [OF assms(4)] by simp
  with assms show ?thesis
    by (simp add: delete_task_def delete_task_try_def query_first_by_id_def delete_def
        commit_delete_def)
qed

lemma create_task_Inr_id:
  assumes "create_task F c db = (Inr t, db')"
  shows "id' t = next_id db"
proof -
  have nf: "F Add = None \<and> F Commit = None \<and> F Refresh = None"
  proof (rule ccontr)
    assume "\<not> ?thesis"
    then have "fst (create_task F c db) = Inl internal_server_error"
      by (intro create_task_fault) auto
    with assms show False by simp
  qed
  show ?thesis
  proof (cases "next_id db \<in> set (ids db)")
    case True
    with nf have "fst (create_task F c db) = Inl internal_server_error"
      by (simp add: create_task_def create_task_try_def add_def commit_insert_def Let_def)
    with assms show ?thesis by simp
  next
    case False
    with nf assms show ?thesis
      by (auto simp: create_task_ok new_Task_def)
  qed
qed

section \<open>The claims\<close>

text \<open>
  C1 (the code does otherwise). The claim: for an id that is not in the table, update and
  delete answer with the not-found outcome (404) and not with the internal error (500).
  Both handlers raise the 404 inside their \<^verbatim>\<open>try\<close> block, and their own
  \<^verbatim>\<open>except Exception\<close> clause catches it: what the caller gets for every such id is the
  500 with the detail "Internal server error", and the store is unchanged.
\<close>

theorem missing_id_gives_internal_server_error:
  "task_id \<notin> set (ids db) \<Longrightarrow>
     update_task F task_id task db = (Inl (HTTPException 500 ''Internal server error''), db) \<and>
     delete_task F task_id db = (Inl (HTTPException 500 ''Internal server error''), db) \<and>
     (F Query = None \<longrightarrow>
        fst (update_task_try F task_id task db) = Inl (HTTPException 404 ''Task not found'') \<and>
        fst (delete_task_try F task_id db) = Inl (HTTPException 404 ''Task not found''))"
proof (intro conjI impI)
  assume a: "task_id \<notin> set (ids db)"
  then show "update_task F task_id task db = (Inl (HTTPException 500 ''Internal server error''), db)"
    by (simp add: update_task_missing internal_server_error_def)
  from a show "delete_task F task_id db = (Inl (HTTPException 500 ''Internal server error''), db)"
    by (simp add: delete_task_missing internal_server_error_def)
  from a have f: "find (\<lambda>t. id' t = task_id) (rows db) = None"
    by (simp add: find_id_None ids_def)
  assume q: "F Query = None"
  from f q show "fst (update_task_try F task_id task db) = Inl (HTTPException 404 ''Task not found'')"
    by (simp add: update_task_try_def query_first_by_id_def)
  from f q show "fst (delete_task_try F task_id db) = Inl (HTTPException 404 ''Task not found'')"
    by (simp add: delete_task_try_def query_first_by_id_def)
qed

theorem missing_id_gives_internal_server_error_witness:
  "7 \<notin> set (ids example_db) \<and>
   update_task no_faults 7
     \<lparr>TaskUpdate.title = None, TaskUpdate.description = None,
      TaskUpdate.completed = Some (Some True), TaskUpdate.color = None\<rparr> example_db =
     (Inl (HTTPException 500 ''Internal server error''), example_db) \<and>
   delete_task no_faults 7 example_db =
     (Inl (HTTPException 500 ''Internal server error''), example_db) \<and>
   no_faults Query = None \<and>
   fst (update_task_try no_faults 7
     \<lparr>TaskUpdate.title = None, TaskUpdate.description = None,
      TaskUpdate.completed = Some (Some True), TaskUpdate.color = None\<rparr> example_db) =
     Inl (HTTPException 404 ''Task not found'') \<and>
   fst (delete_task_try no_faults 7 example_db) = Inl (HTTPException 404 ''Task not found'')"
proof -
  have h: "7 \<notin> set (ids example_db)" by (simp add: example_db_eq ids_def)
  have q: "no_faults Query = None" by (simp add: no_faults_def)
  show ?thesis
    using h q missing_id_gives_internal_server_error [OF h, of no_faults] by simp
qed

text \<open>
  C2. When the query of the store does not fail: for a status that equals "completed" up
  to case, the list is exactly the rows whose \<^verbatim>\<open>completed\<close> is true; for any other
  status that is not empty, exactly the rows whose \<^verbatim>\<open>completed\<close> is false; without a
  status, every row, the completed ones included.
\<close>

theorem get_tasks_status_filter:
  "F Query = None \<Longrightarrow>
     (is_completed_ignoring_case s \<longrightarrow>
        get_tasks F (Some s) db = Inr (filter (\<lambda>t. Task.completed t = Some True) (rows db))) \<and>
     (s \<noteq> [] \<and> \<not> is_completed_ignoring_case s \<longrightarrow>
        get_tasks F (Some s) db = Inr (filter (\<lambda>t. Task.completed t = Some False) (rows db))) \<and>
     get_tasks F None db = Inr (rows db)"
proof (intro conjI impI)
  assume q: "F Query = None"
  show "get_tasks F None db = Inr (rows db)" using q by (rule get_tasks_None)
  {
    assume c: "is_completed_ignoring_case s"
    then have "s \<noteq> []" by (auto simp: is_completed_ignoring_case_def)
    with q c show "get_tasks F (Some s) db = Inr (filter (\<lambda>t. Task.completed t = Some True) (rows db))"
      by (simp add: get_tasks_filter lower_eq_completed)
  }
  {
    assume "s \<noteq> [] \<and> \<not> is_completed_ignoring_case s"
    with q show "get_tasks F (Some s) db = Inr (filter (\<lambda>t. Task.completed t = Some False) (rows db))"
      by (simp add: get_tasks_filter lower_eq_completed)
  }
qed

theorem get_tasks_status_filter_witness:
  "no_faults Query = None \<and> is_completed_ignoring_case ''ComPleted'' \<and>
   get_tasks no_faults (Some ''ComPleted'') example_db =
     Inr [\<lparr>id' = 2, Task.title = Some ''B'', Task.description = Some ''e'',
           Task.completed = Some True, Task.color = Some ''#ff0000''\<rparr>] \<and>
   ''pending'' \<noteq> [] \<and> \<not> is_completed_ignoring_case ''pending'' \<and>
   get_tasks no_faults (Some ''pending'') example_db =
     Inr [\<lparr>id' = 1, Task.title = Some ''A'', Task.description = Some ''d'',
           Task.completed = Some False, Task.color = Some ''#ffffff''\<rparr>] \<and>
   get_tasks no_faults None example_db = Inr (rows example_db) \<and>
   length (rows example_db) = 3"
proof -
  have q: "no_faults Query = None" by (simp add: no_faults_def)
  have c: "is_completed_ignoring_case ''ComPleted''"
    by (simp add: is_completed_ignoring_case_def)
  have p: "''pending'' \<noteq> [] \<and> \<not> is_completed_ignoring_case ''pending''"
    by (simp add: is_completed_ignoring_case_def)
  show ?thesis
    using q c p
      get_tasks_status_filter [of no_faults "''ComPleted''" example_db]
      get_tasks_status_filter [of no_faults "''pending''" example_db]
    by (simp add: example_db_eq)
qed

text \<open>
  C3. When no statement of the store fails, an update of a stored task returns the row
  with the same id in which every field of the payload has the payload's value and every
  other field has its prior value; the table changes in that row only. With the payload
  \<^verbatim>\<open>{"completed": true}\<close> the title, the description and the color are the prior ones.
\<close>

theorem update_task_changes_only_payload_fields:
  "F Query = None \<Longrightarrow> F Commit = None \<Longrightarrow> F Refresh = None \<Longrightarrow>
   find (\<lambda>t. id' t = task_id) (rows db) = Some t \<Longrightarrow>
   (\<exists>t' db'. update_task F task_id task db = (Inr t', db') \<and>
      id' t' = id' t \<and>
      Task.title t' = (case TaskUpdate.title task of None \<Rightarrow> Task.title t | Some v \<Rightarrow> v) \<and>
      Task.description t' =
        (case TaskUpdate.description task of None \<Rightarrow> Task.description t | Some v \<Rightarrow> v) \<and>
      Task.completed t' =
        (case TaskUpdate.completed task of None \<Rightarrow> Task.completed t | Some v \<Rightarrow> v) \<and>
      Task.color t' = (case TaskUpdate.color task of None \<Rightarrow> Task.color t | Some v \<Rightarrow> v) \<and>
      rows db' = map (\<lambda>r. if id' r = task_id then t' else r) (rows db) \<and>
      next_id db' = next_id db \<and>
      (task = \<lparr>TaskUpdate.title = None, TaskUpdate.description = None,
               TaskUpdate.completed = Some (Some True), TaskUpdate.color = None\<rparr> \<longrightarrow>
         Task.title t' = Task.title t \<and> Task.description t' = Task.description t \<and>
         Task.color t' = Task.color t \<and> Task.completed t' = Some True))"
proof -
  assume a: "F Query = None" "F Commit = None" "F Refresh = None"
    and f: "find (\<lambda>t. id' t = task_id) (rows db) = Some t"
  let ?t' = "foldl setattr t (dict_exclude_unset task)"
  let ?db' = "db\<lparr>rows := map (\<lambda>r. if id' r = task_id then ?t' else r) (rows db)\<rparr>"
  have "update_task F task_id task db = (Inr ?t', ?db')"
    using a f by (rule update_task_ok)
  moreover have "id' ?t' = id' t" by (rule id_foldl_setattr)
  moreover have "rows ?db' = map (\<lambda>r. if id' r = task_id then ?t' else r) (rows db)" by simp
  moreover have "next_id ?db' = next_id db" by simp
  moreover have "task = \<lparr>TaskUpdate.title = None, TaskUpdate.description = None,
               TaskUpdate.completed = Some (Some True), TaskUpdate.color = None\<rparr> \<longrightarrow>
         Task.title ?t' = Task.title t \<and> Task.description ?t' = Task.description t \<and>
         Task.color ?t' = Task.color t \<and> Task.completed ?t' = Some True"
    by (auto simp: foldl_setattr_fields)
  ultimately show ?thesis
    using foldl_setattr_fields [of t task] by blast
qed

theorem update_task_changes_only_payload_fields_witness:
  "no_faults Query = None \<and> no_faults Commit = None \<and> no_faults Refresh = None \<and>
   find (\<lambda>t. id' t = 1) (rows example_db) =
     Some \<lparr>id' = 1, Task.title = Some ''A'', Task.description = Some ''d'',
           Task.completed = Some False, Task.color = Some ''#ffffff''\<rparr> \<and>
   (\<exists>t' db'.
      update_task no_faults 1
        \<lparr>TaskUpdate.title = None, TaskUpdate.description = None,
         TaskUpdate.completed = Some (Some True), TaskUpdate.color = None\<rparr> example_db =
        (Inr t', db') \<and>
      id' t' = 1 \<and> Task.title t' = Some ''A'' \<and> Task.description t' = Some ''d'' \<and>
      Task.completed t' = Some True \<and> Task.color t' = Some ''#ffffff'')"
proof -
  have n: "no_faults Query = None" "no_faults Commit = None" "no_faults Refresh = None"
    by (simp_all add: no_faults_def)
  have f: "find (\<lambda>t. id' t = 1) (rows example_db) =
     Some \<lparr>id' = 1, Task.title = Some ''A'', Task.description = Some ''d'',
           Task.completed = Some False, Task.color = Some ''#ffffff''\<rparr>"
    by (simp add: example_db_eq)
  from update_task_changes_only_payload_fields
    [of no_faults 1 example_db
      "\<lparr>id' = 1, Task.title = Some ''A'', Task.description = Some ''d'',
        Task.completed = Some False, Task.color = Some ''#ffffff''\<rparr>"
      "\<lparr>TaskUpdate.title = None, TaskUpdate.description = None,
        TaskUpdate.completed = Some (Some True), TaskUpdate.color = None\<rparr>"] n f
  obtain t' db' where
    "update_task no_faults 1
        \<lparr>TaskUpdate.title = None, TaskUpdate.description = None,
         TaskUpdate.completed = Some (Some True), TaskUpdate.color = None\<rparr> example_db =
        (Inr t', db')"
    "id' t' = 1" "Task.title t' = Some ''A''" "Task.description t' = Some ''d''"
    "Task.completed t' = Some True" "Task.color t' = Some ''#ffffff''"
    by auto
  with n f show ?thesis by blast
qed

text \<open>
  C4. In a store reached from the empty one by any requests, and with no failing
  statement, creating a task from a body with only a title and a description returns a
  row that is in the table, with \<^verbatim>\<open>completed\<close> false and \<^verbatim>\<open>color\<close> "#ffffff"; its id is the
  next value of the sequence, and no row of any earlier store had that id.
\<close>

theorem create_task_defaults_and_fresh_id:
  "F Add = None \<Longrightarrow> F Commit = None \<Longrightarrow> F Refresh = None \<Longrightarrow>
   (\<exists>t db'.
      create_task F (new_TaskCreate ttl descr None None) (run tr init_db) = (Inr t, db') \<and>
      Task.title t = Some ttl \<and> Task.description t = Some descr \<and>
      Task.completed t = Some False \<and> Task.color t = Some ''#ffffff'' \<and>
      id' t = next_id (run tr init_db) \<and>
      rows db' = rows (run tr init_db) @ [t] \<and>
      (\<forall>s \<in> set (states tr init_db). id' t \<notin> set (ids s)))"
proof -
  assume a: "F Add = None" "F Commit = None" "F Refresh = None"
  let ?db = "run tr init_db"
  let ?c = "new_TaskCreate ttl descr None None"
  let ?t = "new_Task (TaskCreate.title ?c) (TaskCreate.description ?c)
              (TaskCreate.color ?c) (TaskCreate.completed ?c) (next_id ?db)"
  let ?db' = "?db\<lparr>rows := rows ?db @ [?t], next_id := next_id ?db + 1\<rparr>"
  have sa: "seq_ahead ?db" by (simp add: seq_ahead_run init_db_ok)
  then have fresh: "next_id ?db \<notin> set (ids ?db)" by (auto simp: seq_ahead_iff)
  have c: "create_task F ?c ?db = (Inr ?t, ?db')"
    using a fresh by (rule create_task_ok)
  have i: "id' ?t = next_id ?db" by (simp add: new_Task_def)
  have "\<forall>s \<in> set (states tr init_db). id' ?t \<notin> set (ids s)"
  proof (intro ballI notI)
    fix s
    assume "s \<in> set (states tr init_db)" and "id' ?t \<in> set (ids s)"
    with states_below_next_id [OF init_db_ok(1)] have "id' ?t < next_id ?db" by blast
    with i show False by simp
  qed
  moreover have "Task.title ?t = Some ttl" "Task.description ?t = Some descr"
    "Task.completed ?t = Some False" "Task.color ?t = Some ''#ffffff''"
    by (simp_all add: new_Task_def new_TaskCreate_def)
  moreover have "rows ?db' = rows ?db @ [?t]" by simp
  ultimately show ?thesis using c i by blast
qed

theorem create_task_defaults_and_fresh_id_witness:
  "no_faults Add = None \<and> no_faults Commit = None \<and> no_faults Refresh = None \<and>
   example_db \<in> set (states example_trace_delete init_db) \<and> 3 \<in> set (ids example_db) \<and>
   (\<exists>t db'.
      create_task no_faults (new_TaskCreate ''A'' ''d'' None None)
        (run example_trace_delete init_db) = (Inr t, db') \<and>
      Task.completed t = Some False \<and> Task.color t = Some ''#ffffff'' \<and>
      id' t \<notin> set (ids example_db) \<and> id' t \<noteq> 3)"
proof -
  have n: "no_faults Add = None" "no_faults Commit = None" "no_faults Refresh = None"
    by (simp_all add: no_faults_def)
  have s: "example_db \<in> set (states example_trace_delete init_db)"
    unfolding example_db_def example_trace_delete_def by (rule run_in_states)
  have i: "3 \<in> set (ids example_db)" by (simp add: example_db_eq ids_def)
  from create_task_defaults_and_fresh_id [of no_faults "''A''" "''d''" example_trace_delete] n
  obtain t db' where c:
    "create_task no_faults (new_TaskCreate ''A'' ''d'' None None)
        (run example_trace_delete init_db) = (Inr t, db')"
    "Task.completed t = Some False" "Task.color t = Some ''#ffffff''"
    "\<forall>s \<in> set (states example_trace_delete init_db). id' t \<notin> set (ids s)"
    by blast
  from c(4) s have f: "id' t \<notin> set (ids example_db)" by blast
  with i have "id' t \<noteq> 3" by auto
  with n s i c f show ?thesis by blast
qed

text \<open>
  C5. In a store reached from the empty one, and with no failing statement, deleting an
  id that is in the table returns the message "Task deleted successfully" and removes
  the row; after any further requests, no list, with any status or none, has a task with
  that id.
\<close>

theorem delete_task_removes_row:
  "F Query = None \<Longrightarrow> F Delete = None \<Longrightarrow> F Commit = None \<Longrightarrow>
   task_id \<in> set (ids (run tr init_db)) \<Longrightarrow>
   (\<exists>db'.
      delete_task F task_id (run tr init_db) =
        (Inr [(''message'', ''Task deleted successfully'')], db') \<and>
      rows db' = filter (\<lambda>t. id' t \<noteq> task_id) (rows (run tr init_db)) \<and>
      (\<forall>tr' F' status tasks.
         get_tasks F' status (run tr' db') = Inr tasks \<longrightarrow> task_id \<notin> set (map id' tasks)))"
proof -
  assume a: "F Query = None" "F Delete = None" "F Commit = None"
    and i: "task_id \<in> set (ids (run tr init_db))"
  let ?db = "run tr init_db"
  let ?db' = "?db\<lparr>rows := filter (\<lambda>r. id' r \<noteq> task_id) (rows ?db)\<rparr>"
  from i have "find (\<lambda>t. id' t = task_id) (rows ?db) \<noteq> None"
    by (simp add: find_id_None ids_def)
  then obtain t where f: "find (\<lambda>t. id' t = task_id) (rows ?db) = Some t" by auto
  have d: "delete_task F task_id ?db = (Inr [(''message'', ''Task deleted successfully'')], ?db')"
    using a f by (rule delete_task_ok)
  have "seq_ahead ?db" by (simp add: seq_ahead_run init_db_ok)
  with i have lt: "task_id < next_id ?db'" by (simp add: seq_ahead_iff)
  have ab: "task_id \<notin> set (ids ?db')" by (auto simp: ids_def)
  have "\<forall>tr' F' status tasks.
         get_tasks F' status (run tr' ?db') = Inr tasks \<longrightarrow> task_id \<notin> set (map id' tasks)"
  proof (intro allI impI)
    fix tr' F' status tasks
    assume g: "get_tasks F' status (run tr' ?db') = Inr tasks"
    have "task_id \<notin> set (ids (run tr' ?db'))" using ab lt by (rule absent_run)
    moreover have "set tasks \<subseteq> set (rows (run tr' ?db'))" using g by (rule get_tasks_subset)
    ultimately show "task_id \<notin> set (map id' tasks)" by (auto simp: ids_def)
  qed
  moreover have "rows ?db' = filter (\<lambda>t. id' t \<noteq> task_id) (rows ?db)" by simp
  ultimately show ?thesis using d by blast
qed

theorem delete_task_removes_row_witness:
  "no_faults Query = None \<and> no_faults Delete = None \<and> no_faults Commit = None \<and>
   3 \<in> set (ids (run example_trace init_db)) \<and>
   (\<exists>db' tasks.
      delete_task no_faults 3 (run example_trace init_db) =
        (Inr [(''message'', ''Task deleted successfully'')], db') \<and>
      get_tasks no_faults None
        (run [(no_faults, POST_tasks (new_TaskCreate ''D'' ''g'' None None))] db') = Inr tasks \<and>
      3 \<notin> set (map id' tasks))"
proof -
  have n: "no_faults Query = None" "no_faults Delete = None" "no_faults Commit = None"
    by (simp_all add: no_faults_def)
  have i: "3 \<in> set (ids (run example_trace init_db))"
    using example_db_eq by (simp add: example_db_def ids_def)
  from delete_task_removes_row [of no_faults 3 example_trace] n i
  obtain db' where d:
    "delete_task no_faults 3 (run example_trace init_db) =
        (Inr [(''message'', ''Task deleted successfully'')], db')"
    "\<forall>tr' F' status tasks.
       get_tasks F' status (run tr' db') = Inr tasks \<longrightarrow> 3 \<notin> set (map id' tasks)"
    by blast
  let ?tr = "[(no_faults, POST_tasks (new_TaskCreate ''D'' ''g'' None None))]"
  have g: "get_tasks no_faults None (run ?tr db') = Inr (rows (run ?tr db'))"
    using n(1) by (rule get_tasks_None)
  with d(2) have "3 \<notin> set (map id' (rows (run ?tr db')))" by blast
  with n i d(1) g show ?thesis by blast
qed

text \<open>
  C6. In every store reached from the empty one the ids are pairwise distinct. An
  update, whatever its payload and outcome, leaves the ids of the table as they are, and
  the row it returns has the id of the request. A task that a later create returns has
  an id that no row of any earlier store had, so the id of a deleted task is not used
  again.
\<close>

theorem task_ids_unique_and_never_reused:
  "distinct (ids (run tr init_db)) \<and>
   ids (snd (update_task F task_id u db)) = ids db \<and>
   (\<forall>t. fst (update_task F task_id u db) = Inr t \<longrightarrow> id' t = task_id) \<and>
   (\<forall>s \<in> set (states tr init_db). \<forall>t db'.
      create_task F c (run tr init_db) = (Inr t, db') \<longrightarrow> id' t \<notin> set (ids s))"
proof (intro conjI allI impI ballI)
  show "distinct (ids (run tr init_db))" by (simp add: distinct_run init_db_ok)
  show "ids (snd (update_task F task_id u db)) = ids db" by (rule ids_update)
next
  fix t
  assume r: "fst (update_task F task_id u db) = Inr t"
  have nf: "F Query = None \<and> F Commit = None \<and> F Refresh = None"
  proof (rule ccontr)
    assume "\<not> ?thesis"
    then have "fst (update_task F task_id u db) = Inl internal_server_error"
      by (intro update_task_fault) auto
    with r show False by simp
  qed
  show "id' t = task_id"
  proof (cases "find (\<lambda>t. id' t = task_id) (rows db)")
    case None
    then have "task_id \<notin> set (ids db)" by (simp add: find_id_None ids_def)
    then have "update_task F task_id u db = (Inl internal_server_error, db)"
      by (rule update_task_missing)
    with r show ?thesis by simp
  next
    case (Some t0)
    with nf have "update_task F task_id u db =
      (Inr (foldl setattr t0 (dict_exclude_unset u)),
       db\<lparr>rows := map (\<lambda>r. if id' r = task_id then foldl setattr t0 (dict_exclude_unset u) else r)
                    (rows db)\<rparr>)"
      by (intro update_task_ok) auto
    with r have "t = foldl setattr t0 (dict_exclude_unset u)" by simp
    then show ?thesis using find_id_Some [OF Some] by (simp add: id_foldl_setattr)
  qed
next
  fix s t db'
  assume s: "s \<in> set (states tr init_db)"
    and c: "create_task F c (run tr init_db) = (Inr t, db')"
  from c have "id' t = next_id (run tr init_db)" by (rule create_task_Inr_id)
  moreover have "\<forall>i \<in> set (ids s). i < next_id (run tr init_db)"
    using states_below_next_id [OF init_db_ok(1) s] by blast
  ultimately show "id' t \<notin> set (ids s)" by auto
qed

theorem task_ids_unique_and_never_reused_witness:
  "distinct (ids (run example_trace_delete init_db)) \<and>
   example_db \<in> set (states example_trace_delete init_db) \<and> 3 \<in> set (ids example_db) \<and>
   (\<exists>t db'.
      create_task no_faults (new_TaskCreate ''A'' ''d'' None None)
        (run example_trace_delete init_db) = (Inr t, db') \<and>
      id' t \<notin> set (ids example_db) \<and> id' t \<noteq> 3) \<and>
   (\<exists>t. fst (update_task no_faults 1
           \<lparr>TaskUpdate.title = Some (Some ''Z''), TaskUpdate.description = None,
            TaskUpdate.completed = None, TaskUpdate.color = None\<rparr> example_db) = Inr t \<and>
        id' t = 1) \<and>
   ids (snd (update_task no_faults 1
           \<lparr>TaskUpdate.title = Some (Some ''Z''), TaskUpdate.description = None,
            TaskUpdate.completed = None, TaskUpdate.color = None\<rparr> example_db)) =
     ids example_db"
proof -
  let ?u = "\<lparr>TaskUpdate.title = Some (Some ''Z''), TaskUpdate.description = None,
            TaskUpdate.completed = None, TaskUpdate.color = None\<rparr>"
  let ?c = "new_TaskCreate ''A'' ''d'' None None"
  let ?db = "run example_trace_delete init_db"
  note w = task_ids_unique_and_never_reused [of example_trace_delete no_faults 1 ?u example_db ?c]
  have n: "no_faults Add = None" "no_faults Commit = None" "no_faults Refresh = None"
    "no_faults Query = None"
    by (simp_all add: no_faults_def)
  have s: "example_db \<in> set (states example_trace_delete init_db)"
    unfolding example_db_def example_trace_delete_def by (rule run_in_states)
  have i: "3 \<in> set (ids example_db)" by (simp add: example_db_eq ids_def)
  have "seq_ahead ?db" by (simp add: seq_ahead_run init_db_ok)
  then have "next_id ?db \<notin> set (ids ?db)" by (auto simp: seq_ahead_iff)
  with n obtain t db' where c: "create_task no_faults ?c ?db = (Inr t, db')"
    using create_task_ok [of no_faults ?db ?c] by blast
  with w s have f: "id' t \<notin> set (ids example_db)" by blast
  with i have ne: "id' t \<noteq> 3" by auto
  have "find (\<lambda>t. id' t = 1) (rows example_db) \<noteq> None" by (simp add: example_db_eq)
  then obtain t0 where "find (\<lambda>t. id' t = 1) (rows example_db) = Some t0" by blast
  with n obtain t1 where u: "fst (update_task no_faults 1 ?u example_db) = Inr t1"
    using update_task_ok [of no_faults 1 example_db t0 ?u] by simp
  with w have "id' t1 = 1" by blast
  with w s i c f ne u show ?thesis by blast
qed

text \<open>
  C7. Whatever the four handlers raise is the 500 with the detail "Internal server error"
  and nothing else, so no detail of a store exception reaches the caller; and a failure
  of any statement that a handler runs on the store makes the handler raise it.
\<close>

theorem handlers_raise_only_internal_server_error:
  "(\<forall>e. fst (create_task F c db) = Inl e \<longrightarrow> e = HTTPException 500 ''Internal server error'') \<and>
   (\<forall>e. get_tasks F status db = Inl e \<longrightarrow> e = HTTPException 500 ''Internal server error'') \<and>
   (\<forall>e. fst (update_task F task_id u db) = Inl e \<longrightarrow> e = HTTPException 500 ''Internal server error'') \<and>
   (\<forall>e. fst (delete_task F task_id db) = Inl e \<longrightarrow> e = HTTPException 500 ''Internal server error'') \<and>
   (F Add \<noteq> None \<or> F Commit \<noteq> None \<or> F Refresh \<noteq> None \<longrightarrow>
      fst (create_task F c db) = Inl (HTTPException 500 ''Internal server error'')) \<and>
   (F Query \<noteq> None \<longrightarrow>
      get_tasks F status db = Inl (HTTPException 500 ''Internal server error'')) \<and>
   (F Query \<noteq> None \<or> F Commit \<noteq> None \<or> F Refresh \<noteq> None \<longrightarrow>
      fst (update_task F task_id u db) = Inl (HTTPException 500 ''Internal server error'')) \<and>
   (F Query \<noteq> None \<or> F Delete \<noteq> None \<or> F Commit \<noteq> None \<longrightarrow>
      fst (delete_task F task_id db) = Inl (HTTPException 500 ''Internal server error''))"
  using create_task_Inl [of F c db] get_tasks_Inl [of F status db]
    update_task_Inl [of F task_id u db] delete_task_Inl [of F task_id db]
    create_task_fault [of F c db] get_tasks_fault [of F status db]
    update_task_fault [of F task_id u db] delete_task_fault [of F task_id db]
  unfolding internal_server_error_def by blast

theorem handlers_raise_only_internal_server_error_witness:
  "failing_commit Commit \<noteq> None \<and> failing_query Query \<noteq> None \<and>
   fst (create_task failing_commit (new_TaskCreate ''A'' ''d'' None None) example_db) =
     Inl (HTTPException 500 ''Internal server error'') \<and>
   fst (update_task failing_commit 1
     \<lparr>TaskUpdate.title = Some (Some ''Z''), TaskUpdate.description = None,
      TaskUpdate.completed = None, TaskUpdate.color = None\<rparr> example_db) =
     Inl (HTTPException 500 ''Internal server error'') \<and>
   fst (delete_task failing_commit 1 example_db) =
     Inl (HTTPException 500 ''Internal server error'') \<and>
   get_tasks failing_query None example_db = Inl (HTTPException 500 ''Internal server error'')"
proof -
  have c: "failing_commit Commit \<noteq> None" by (simp add: failing_commit_def)
  have q: "failing_query Query \<noteq> None" by (simp add: failing_query_def)
  note w1 = handlers_raise_only_internal_server_error
        [of failing_commit "new_TaskCreate ''A'' ''d'' None None" example_db None 1
          "\<lparr>TaskUpdate.title = Some (Some ''Z''), TaskUpdate.description = None,
            TaskUpdate.completed = None, TaskUpdate.color = None\<rparr>"]
  note w2 = handlers_raise_only_internal_server_error
        [of failing_query "new_TaskCreate ''A'' ''d'' None None" example_db None 1
          "\<lparr>TaskUpdate.title = Some (Some ''Z''), TaskUpdate.description = None,
            TaskUpdate.completed = None, TaskUpdate.color = None\<rparr>"]
  note f1 = w1 [THEN conjunct2, THEN conjunct2, THEN conjunct2, THEN conjunct2]
  note f2 = w2 [THEN conjunct2, THEN conjunct2, THEN conjunct2, THEN conjunct2]
  have cr: "fst (create_task failing_commit (new_TaskCreate ''A'' ''d'' None None) example_db) =
     Inl (HTTPException 500 ''Internal server error'')"
    using c f1 [THEN conjunct1] by (simp only: simp_thms)
  have up: "fst (update_task failing_commit 1
     \<lparr>TaskUpdate.title = Some (Some ''Z''), TaskUpdate.description = None,
      TaskUpdate.completed = None, TaskUpdate.color = None\<rparr> example_db) =
     Inl (HTTPException 500 ''Internal server error'')"
    using c f1 [THEN conjunct2, THEN conjunct2, THEN conjunct1] by (simp only: simp_thms)
  have de: "fst (delete_task failing_commit 1 example_db) =
     Inl (HTTPException 500 ''Internal server error'')"
    using c f1 [THEN conjunct2, THEN conjunct2, THEN conjunct2] by (simp only: simp_thms)
  have ge: "get_tasks failing_query None example_db =
     Inl (HTTPException 500 ''Internal server error'')"
    using q f2 [THEN conjunct2, THEN conjunct1] by (simp only: simp_thms)
  from c q cr up de ge show ?thesis by (intro conjI)
qed




text \<open>
  C9. A status that is the empty string is not a filter: the handler does what it does
  without a status, and returns every row when the query of the store does not fail.
\<close>

theorem get_tasks_empty_status:
  "get_tasks F (Some '''') db = get_tasks F None db \<and>
   (F Query = None \<longrightarrow> get_tasks F (Some '''') db = Inr (rows db))"
  by (simp add: get_tasks_def get_tasks_try_def query_all_def)

theorem get_tasks_empty_status_witness:
  "no_faults Query = None \<and>
   get_tasks no_faults (Some '''') example_db = Inr (rows example_db) \<and>
   length (rows example_db) = 3"
proof -
  have q: "no_faults Query = None" by (simp add: no_faults_def)
  from get_tasks_empty_status [of no_faults example_db] q
  have "get_tasks no_faults (Some []) example_db = Inr (rows example_db)" by blast
  then show ?thesis using q by (simp add: example_db_eq)
qed

text \<open>
  C10. In a table with unique keys and with no failing statement, an update with the
  empty payload of an id that is in the table returns the stored row as it is and leaves
  the store as it was.
\<close>

theorem update_task_empty_payload:
  "distinct (ids db) \<Longrightarrow> F Query = None \<Longrightarrow> F Commit = None \<Longrightarrow> F Refresh = None \<Longrightarrow>
   task_id \<in> set (ids db) \<Longrightarrow>
   (\<exists>t. find (\<lambda>t. id' t = task_id) (rows db) = Some t \<and>
        update_task F task_id
          \<lparr>TaskUpdate.title = None, TaskUpdate.description = None,
           TaskUpdate.completed = None, TaskUpdate.color = None\<rparr> db = (Inr t, db))"
proof -
  assume d: "distinct (ids db)" and a: "F Query = None" "F Commit = None" "F Refresh = None"
    and i: "task_id \<in> set (ids db)"
  from i have "find (\<lambda>t. id' t = task_id) (rows db) \<noteq> None"
    by (simp add: find_id_None ids_def)
  then obtain t where f: "find (\<lambda>t. id' t = task_id) (rows db) = Some t" by auto
  let ?u = "\<lparr>TaskUpdate.title = None, TaskUpdate.description = None,
           TaskUpdate.completed = None, TaskUpdate.color = None\<rparr>"
  have e: "foldl setattr t (dict_exclude_unset ?u) = t"
    by (simp add: dict_exclude_unset_empty)
  have m: "map (\<lambda>r. if id' r = task_id then t else r) (rows db) = rows db"
    using d f by (simp add: replace_same ids_def)
  have "update_task F task_id ?u db =
    (Inr (foldl setattr t (dict_exclude_unset ?u)),
     db\<lparr>rows := map (\<lambda>r. if id' r = task_id then foldl setattr t (dict_exclude_unset ?u) else r)
                    (rows db)\<rparr>)"
    using a f by (rule update_task_ok)
  then have "update_task F task_id ?u db = (Inr t, db\<lparr>rows := rows db\<rparr>)"
    by (simp only: e m)
  then have "update_task F task_id ?u db = (Inr t, db)"
    by simp
  with f show ?thesis by blast
qed

theorem update_task_empty_payload_witness:
  "distinct (ids example_db) \<and>
   no_faults Query = None \<and> no_faults Commit = None \<and> no_faults Refresh = None \<and>
   2 \<in> set (ids example_db) \<and>
   update_task no_faults 2
     \<lparr>TaskUpdate.title = None, TaskUpdate.description = None,
      TaskUpdate.completed = None, TaskUpdate.color = None\<rparr> example_db =
     (Inr \<lparr>id' = 2, Task.title = Some ''B'', Task.description = Some ''e'',
           Task.completed = Some True, Task.color = Some ''#ff0000''\<rparr>, example_db)"
proof -
  have d: "distinct (ids example_db)" by (simp add: example_db_eq ids_def)
  have n: "no_faults Query = None" "no_faults Commit = None" "no_faults Refresh = None"
    by (simp_all add: no_faults_def)
  have i: "2 \<in> set (ids example_db)" by (simp add: example_db_eq ids_def)
  have f: "find (\<lambda>t. id' t = 2) (rows example_db) =
     Some \<lparr>id' = 2, Task.title = Some ''B'', Task.description = Some ''e'',
           Task.completed = Some True, Task.color = Some ''#ff0000''\<rparr>"
    by (simp add: example_db_eq)
  from update_task_empty_payload [of example_db no_faults 2] d n i f
  have "update_task no_faults 2
     \<lparr>TaskUpdate.title = None, TaskUpdate.description = None,
      TaskUpdate.completed = None, TaskUpdate.color = None\<rparr> example_db =
     (Inr \<lparr>id' = 2, Task.title = Some ''B'', Task.description = Some ''e'',
           Task.completed = Some True, Task.color = Some ''#ff0000''\<rparr>, example_db)"
    by auto
  with d n i show ?thesis by blast
qed

end
